theory Spec2Isabelle
  imports Complex_Main "HOL-Library.Sublist"
begin

section \<open>The capture loop of main.py\<close>

text \<open>
  The script records with two threads of control. The audio driver calls
  \<^verbatim>\<open>callback\<close>, which does \<^verbatim>\<open>q.put(indata.copy())\<close>; the main thread runs
  \<^verbatim>\<open>while True: file.write(q.get())\<close> inside the two \<^verbatim>\<open>with\<close> blocks and leaves
  them only through \<^verbatim>\<open>KeyboardInterrupt\<close>. The model is an interleaving of four
  atomic events over a state that holds the queue, the block taken by
  \<^verbatim>\<open>q.get()\<close> and not yet given to \<^verbatim>\<open>file.write\<close>, and the file. \<^verbatim>\<open>queue.Queue\<close>
  is first-in first-out: \<^verbatim>\<open>put\<close> appends at the back, \<^verbatim>\<open>get\<close> takes the front.
  The field \<open>put_log\<close> is a history variable: every block the callback has
  enqueued, in order. The program never reads it.
\<close>

type_synonym block = "int list"

datatype phase = Recording | Stopped

record capture =
  q :: "block list"
  held :: "block option"
  outfile :: "block list"
  put_log :: "block list"
  phase :: phase

datatype event = Callback block | Get | Write | Interrupt

text \<open>
  \<open>Callback b\<close>: the stream is open and the driver delivers block \<open>b\<close>.
  \<open>Get\<close>: \<^verbatim>\<open>q.get()\<close> returns; on an empty queue it blocks, so nothing happens.
  \<open>Write\<close>: \<^verbatim>\<open>file.write\<close> appends the block that \<^verbatim>\<open>q.get()\<close> returned.
  \<open>Interrupt\<close>: \<^verbatim>\<open>KeyboardInterrupt\<close> arrives in the main thread; the loop is
  left, the \<^verbatim>\<open>with\<close> blocks close the stream and then the file, and the handler
  goes on to the evaluation. The handler never touches \<^verbatim>\<open>q\<close> or \<^verbatim>\<open>file\<close> again,
  so a block that \<^verbatim>\<open>q.get()\<close> had returned and \<^verbatim>\<open>file.write\<close> had not yet
  received is dropped, and the queue keeps what it held. After the interrupt no
  event changes the state.
\<close>

fun step :: "event \<Rightarrow> capture \<Rightarrow> capture" where
  "step (Callback b) s =
     (if phase s = Recording
      then s\<lparr>q := q s @ [b], put_log := put_log s @ [b]\<rparr>
      else s)"
| "step Get s =
     (if phase s = Recording \<and> held s = None
      then (case q s of [] \<Rightarrow> s | b # bs \<Rightarrow> s\<lparr>q := bs, held := Some b\<rparr>)
      else s)"
| "step Write s =
     (if phase s = Recording
      then (case held s of None \<Rightarrow> s
            | Some b \<Rightarrow> s\<lparr>outfile := outfile s @ [b], held := None\<rparr>)
      else s)"
| "step Interrupt s =
     (if phase s = Recording then s\<lparr>held := None, phase := Stopped\<rparr> else s)"

definition run :: "event list \<Rightarrow> capture \<Rightarrow> capture" where
  "run evs s = fold step evs s"

text \<open>The state once the file is open and the stream has started.\<close>

definition init :: capture where
  "init = \<lparr>q = [], held = None, outfile = [], put_log = [], phase = Recording\<rparr>"

text \<open>The blocks that were enqueued and are not in the file yet.\<close>

definition pending :: "capture \<Rightarrow> block list" where
  "pending s = (case held s of None \<Rightarrow> [] | Some b \<Rightarrow> [b]) @ q s"

definition capture_inv :: "capture \<Rightarrow> bool" where
  "capture_inv s \<longleftrightarrow>
     (if phase s = Recording then outfile s @ pending s = put_log s
      else prefix (outfile s) (put_log s))"

text \<open>
  Two blocks are enqueued, the first one is written, and the interrupt arrives
  while the second one is still in the queue.
\<close>

definition backlog_schedule :: "event list" where
  "backlog_schedule = [Callback [1], Callback [2], Get, Write, Interrupt]"

section \<open>Opening the output file\<close>

text \<open>
  Lines 199 to 213 of main.py. The file system is a map from the paths of the
  regular files to their contents; directories and permissions are outside the
  model. \<open>dev\<close> is what \<^verbatim>\<open>int(sd.query_devices(...)['default_samplerate'])\<close>
  gives: a rate, or the error the query raises. The file system is returned in
  every case, since an exception undoes nothing. Printed lines are returned as
  a list.
\<close>

text \<open>
  \<open>File_exists p\<close> is the \<^verbatim>\<open>OSError\<close> with the message \<^verbatim>\<open>File exists\<close> and
  the path, which the soundfile library raises for mode \<^verbatim>\<open>'x'\<close>.
\<close>

datatype error =
    File_exists string
  | TypeError
  | ValueError
  | OverflowError
  | LibsndfileError
  | PortAudioError
  | KeyError
  | BackendError

type_synonym fs = "string \<rightharpoonup> block list"

record args =
  filename :: "string option"
  samplerate :: "int option"
  channels :: int
  subtype :: "string option"
  target_language :: "string option"

text \<open>
  \<^verbatim>\<open>sf.SoundFile(name, mode='x', samplerate=..., channels=..., subtype=...)\<close>
  is a call into the soundfile library and, through it, libsndfile; neither is
  part of the repository. Which file names (the format comes from the
  extension), rates, channel counts and subtypes they refuse is taken as a
  parameter \<open>L\<close>:
  \<^item> \<open>info_error\<close>: the error raised while the arguments are checked, before
    the file system is looked at;
  \<^item> \<open>open_error\<close>: the error with which libsndfile refuses to create the
    file, once the path is known to be free;
  \<^item> \<open>failed_open\<close>: what such a refused creation leaves of the file system.
  Between the two, mode \<^verbatim>\<open>'x'\<close> raises when a file is at the path. When nothing
  is refused, an empty sound file is created at the path.
\<close>

record soundfile_lib =
  info_error :: "string \<Rightarrow> int \<Rightarrow> int \<Rightarrow> string option \<Rightarrow> error option"
  open_error :: "string \<Rightarrow> int \<Rightarrow> int \<Rightarrow> string option \<Rightarrow> error option"
  failed_open :: "string \<Rightarrow> fs \<Rightarrow> fs"

definition SoundFile_x ::
  "soundfile_lib \<Rightarrow> string \<Rightarrow> int \<Rightarrow> int \<Rightarrow> string option \<Rightarrow> fs \<Rightarrow> (error + unit) \<times> fs" where
  "SoundFile_x L p rate ch st fsys =
     (case info_error L p rate ch st of
        Some e \<Rightarrow> (Inl e, fsys)
      | None \<Rightarrow>
          (if fsys p \<noteq> None then (Inl (File_exists p), fsys)
           else (case open_error L p rate ch st of
                   Some e \<Rightarrow> (Inl e, failed_open L p fsys)
                 | None \<Rightarrow> (Inr (), fsys(p \<mapsto> [])))))"

definition resolve_samplerate :: "args \<Rightarrow> error + int \<Rightarrow> error + int" where
  "resolve_samplerate a dev =
     (case samplerate a of None \<Rightarrow> dev | Some r \<Rightarrow> Inr r)"

definition resolve_filename :: "args \<Rightarrow> fs \<Rightarrow> string \<times> fs \<times> string list" where
  "resolve_filename a fsys =
     (case filename a of
        Some p \<Rightarrow> (p, fsys, [])
      | None \<Rightarrow>
          (if fsys ''recording.wav'' \<noteq> None
           then (''recording.wav'', fsys(''recording.wav'' := None),
                 [''Removed existing file: recording.wav''])
           else (''recording.wav'', fsys, [])))"

definition session_start ::
  "soundfile_lib \<Rightarrow> args \<Rightarrow> error + int \<Rightarrow> fs \<Rightarrow>
   (error + string \<times> int) \<times> fs \<times> string list" where
  "session_start L a dev fsys =
     (case resolve_samplerate a dev of
        Inl e \<Rightarrow> (Inl e, fsys, [])
      | Inr rate \<Rightarrow>
          (case resolve_filename a fsys of
             (p, fsys1, out) \<Rightarrow>
               (case SoundFile_x L p rate (channels a) (subtype a) fsys1 of
                  (Inl e, fsys2) \<Rightarrow> (Inl e, fsys2, out)
                | (Inr u, fsys2) \<Rightarrow> (Inr (p, rate), fsys2, out))))"

text \<open>The script started without a file name and with a sampling rate.\<close>

definition default_args :: args where
  "default_args =
     \<lparr>filename = None, samplerate = Some 16000, channels = 1, subtype = None,
      target_language = Some ''english''\<rparr>"

text \<open>A directory that already holds a recording of two blocks.\<close>

definition old_recording :: fs where
  "old_recording = [''recording.wav'' \<mapsto> [[7, 7], [8, 8]]]"

text \<open>
  A library that refuses a rate beyond 32 bits while it checks the arguments
  and a rate that is not positive when it creates the file, and accepts
  everything else; a refused creation leaves the file system as it was.
\<close>

definition rate_checking_lib :: soundfile_lib where
  "rate_checking_lib =
     \<lparr>info_error = (\<lambda>p rate ch st. if 2147483647 < rate then Some OverflowError else None),
      open_error = (\<lambda>p rate ch st. if rate \<le> 0 then Some LibsndfileError else None),
      failed_open = (\<lambda>p fsys. fsys)\<rparr>"

section \<open>Text normalisation and error metrics\<close>

text \<open>
  \<^verbatim>\<open>compute_error_rate\<close> (lines 22 to 53) is a sequence of calls into the
  jiwer library, which is not part of the repository. The model below follows
  what those calls compute. A Python string is a list of code points; the model
  covers the code points 0 to 255 (ASCII and Latin-1), one \<open>char\<close> each, read
  through \<open>of_char\<close>.
\<close>

text \<open>
  Modelled from the spec: \<^verbatim>\<open>jiwer.RemovePunctuation\<close>, a library transform
  that is not under src/ ("remove punctuation"). It deletes every character of
  Unicode general category P; below 256 these are the code points listed.
\<close>

definition is_punctuation :: "char \<Rightarrow> bool" where
  "is_punctuation c \<longleftrightarrow>
     (of_char c :: nat) \<in> set [33, 34, 35, 37, 38, 39, 40, 41, 42, 44, 45, 46, 47,
                              58, 59, 63, 64, 91, 92, 93, 95, 123, 125,
                              161, 167, 171, 182, 183, 187, 191]"

definition RemovePunctuation :: "string \<Rightarrow> string" where
  "RemovePunctuation s = filter (\<lambda>c. \<not> is_punctuation c) s"

text \<open>
  Modelled from the spec: \<^verbatim>\<open>jiwer.ToLowerCase\<close>, a library transform that is
  not under src/ ("case-fold to lowercase"). It is \<^verbatim>\<open>str.lower\<close>: below 256 the
  capital letters are A to Z and the Latin-1 capitals 192 to 222 without the
  multiplication sign 215, each 32 below its small letter.
\<close>

definition to_lower_char :: "char \<Rightarrow> char" where
  "to_lower_char c =
     (let n = (of_char c :: nat)
      in if (65 \<le> n \<and> n \<le> 90) \<or> (192 \<le> n \<and> n \<le> 214) \<or> (216 \<le> n \<and> n \<le> 222)
         then char_of (n + 32) else c)"

definition ToLowerCase :: "string \<Rightarrow> string" where
  "ToLowerCase s = map to_lower_char s"

text \<open>
  Modelled from the spec: \<^verbatim>\<open>jiwer.Strip\<close>, a library transform that is not
  under src/ ("strip leading/trailing whitespace"). It is \<^verbatim>\<open>str.strip\<close>; the
  white space below 256 is 9 to 13, 28 to 32, 133 and 160.
\<close>

definition is_space :: "char \<Rightarrow> bool" where
  "is_space c \<longleftrightarrow>
     (of_char c :: nat) \<in> set [9, 10, 11, 12, 13, 28, 29, 30, 31, 32, 133, 160]"

definition Strip :: "string \<Rightarrow> string" where
  "Strip s = rev (dropWhile is_space (rev (dropWhile is_space s)))"

text \<open>
  The three preprocessing lines of \<^verbatim>\<open>compute_error_rate\<close>, applied to the
  reference (lines 37 to 39) and to the hypothesis (lines 41 to 43).
\<close>

definition normalize_text :: "string \<Rightarrow> string" where
  "normalize_text s = Strip (ToLowerCase (RemovePunctuation s))"

text \<open>
  Modelled from the spec: the word transform of \<^verbatim>\<open>jiwer.process_words\<close>, which
  is not under src/. A run of two or more white-space characters becomes one
  space, the string is stripped, and it is split at spaces into its non-empty
  words.
\<close>

function RemoveMultipleSpaces :: "string \<Rightarrow> string" where
  "RemoveMultipleSpaces [] = []"
| "RemoveMultipleSpaces [c] = [c]"
| "RemoveMultipleSpaces (c # d # cs) =
     (if is_space c \<and> is_space d
      then CHR '' '' # RemoveMultipleSpaces (dropWhile is_space cs)
      else c # RemoveMultipleSpaces (d # cs))"
  by pat_completeness auto
termination
proof (relation "measure length")
  show "wf (measure length)" by simp
next
  fix c d :: char and cs :: string
  have "length (dropWhile is_space cs) \<le> length cs"
    by (rule length_dropWhile_le)
  then show "(dropWhile is_space cs, c # d # cs) \<in> measure length"
    by simp
next
  fix c d :: char and cs :: string
  show "(d # cs, c # d # cs) \<in> measure length"
    by simp
qed

fun split_words :: "string \<Rightarrow> string \<Rightarrow> string list" where
  "split_words w [] = (if w = [] then [] else [w])"
| "split_words w (c # cs) =
     (if c = CHR '' '' then (if w = [] then [] else [w]) @ split_words [] cs
      else split_words (w @ [c]) cs)"

definition words_of :: "string \<Rightarrow> string list" where
  "words_of s = split_words [] (Strip (RemoveMultipleSpaces s))"

text \<open>
  Modelled from the spec: the alignment inside \<^verbatim>\<open>jiwer.process_words\<close>, which
  is not under src/ ("minimum-edit-distance alignment (insertions, deletions,
  substitutions)"). An alignment is a list of edit steps read from left to
  right; \<open>aligns\<close> says that a list of steps turns the reference into the
  hypothesis, \<open>cost\<close> counts the steps that are not hits. \<open>editops\<close> computes
  one alignment of least cost; among several of the same cost it prefers a
  substitution to a deletion and a deletion to an insertion.
\<close>

datatype edit = Hit | Replace | Delete | Insert

fun aligns :: "edit list \<Rightarrow> 'a list \<Rightarrow> 'a list \<Rightarrow> bool" where
  "aligns [] xs ys \<longleftrightarrow> xs = [] \<and> ys = []"
| "aligns (Hit # es) (x # xs) (y # ys) \<longleftrightarrow> x = y \<and> aligns es xs ys"
| "aligns (Replace # es) (x # xs) (y # ys) \<longleftrightarrow> x \<noteq> y \<and> aligns es xs ys"
| "aligns (Delete # es) (x # xs) ys \<longleftrightarrow> aligns es xs ys"
| "aligns (Insert # es) xs (y # ys) \<longleftrightarrow> aligns es xs ys"
| "aligns es xs ys \<longleftrightarrow> False"

definition count_edit :: "edit \<Rightarrow> edit list \<Rightarrow> nat" where
  "count_edit e es = length (filter (\<lambda>x. x = e) es)"

definition cost :: "edit list \<Rightarrow> nat" where
  "cost es = count_edit Replace es + count_edit Delete es + count_edit Insert es"

definition cheaper :: "edit list \<Rightarrow> edit list \<Rightarrow> edit list" where
  "cheaper es fs = (if cost fs < cost es then fs else es)"

fun editops :: "'a list \<Rightarrow> 'a list \<Rightarrow> edit list" where
  "editops [] [] = []"
| "editops [] (y # ys) = Insert # editops [] ys"
| "editops (x # xs) [] = Delete # editops xs []"
| "editops (x # xs) (y # ys) =
     (if x = y then Hit # editops xs ys
      else cheaper (cheaper (Replace # editops xs ys) (Delete # editops xs (y # ys)))
                   (Insert # editops (x # xs) ys))"

text \<open>
  Modelled from the spec: the measures of \<^verbatim>\<open>jiwer.process_words\<close>
  ("wer = (S+D+I)/N_ref_words; mer = (S+D+I)/(S+D+I+C); wip =
  (matches/refLen)*(matches/hypLen), wil = 1 - wip"). The number of reference
  words is hits + substitutions + deletions. The library gives wip = 0 for a
  hypothesis without words. The measures are Python floats; the model computes
  the exact quotients.
\<close>

record WordOutput =
  wer :: rat
  mer :: rat
  wil :: rat
  wip :: rat
  hits :: nat
  substitutions :: nat
  deletions :: nat
  insertions :: nat

definition measures :: "'a list \<Rightarrow> 'a list \<Rightarrow> WordOutput" where
  "measures r h =
     (let ops = editops r h;
          H = count_edit Hit ops; S = count_edit Replace ops;
          D = count_edit Delete ops; I = count_edit Insert ops;
          p = (if length h \<ge> 1
               then (of_nat H / of_nat (length r)) * (of_nat H / of_nat (length h))
               else 0)
      in \<lparr>wer = of_nat (S + D + I) / of_nat (H + S + D),
          mer = of_nat (S + D + I) / of_nat (H + S + D + I),
          wil = 1 - p, wip = p,
          hits = H, substitutions = S, deletions = D, insertions = I\<rparr>)"

text \<open>
  What the library does with a reference that has no word, or no character, is
  said neither in the source nor in the spec (sections 4.6 and 9 leave it
  open), and versions of the library differ: some raise, some return numbers.
  It is taken as a parameter \<open>E\<close>: what \<^verbatim>\<open>process_words\<close> and \<^verbatim>\<open>cer\<close> give
  for such a reference and a hypothesis.
\<close>

record empty_policy =
  words_empty :: "string \<Rightarrow> string \<Rightarrow> error + WordOutput"
  chars_empty :: "string \<Rightarrow> string \<Rightarrow> error + rat"

definition process_words :: "empty_policy \<Rightarrow> string \<Rightarrow> string \<Rightarrow> error + WordOutput" where
  "process_words E reference hypothesis =
     (if words_of reference = [] then words_empty E reference hypothesis
      else Inr (measures (words_of reference) (words_of hypothesis)))"

text \<open>
  Modelled from the spec: \<^verbatim>\<open>jiwer.cer\<close>, which is not under src/ ("cer repeats
  the same alignment at character granularity over the normalized strings (no
  word tokenization)"). Both strings are stripped and aligned character by
  character.
\<close>

definition cer :: "empty_policy \<Rightarrow> string \<Rightarrow> string \<Rightarrow> error + rat" where
  "cer E reference hypothesis =
     (if Strip reference = [] then chars_empty E reference hypothesis
      else Inr (wer (measures (Strip reference) (Strip hypothesis))))"

text \<open>
  \<^verbatim>\<open>ASR.compute_error_rate\<close>, lines 22 to 53: both strings are normalised, the
  word measures are computed, then the character error rate, and the five
  numbers are returned as a tuple. The function catches nothing, so an
  exception of the library leaves it.
\<close>

definition compute_error_rate ::
  "empty_policy \<Rightarrow> string \<Rightarrow> string \<Rightarrow> error + rat \<times> rat \<times> rat \<times> rat \<times> rat" where
  "compute_error_rate E reference hypothesis =
     (let reference = Strip (ToLowerCase (RemovePunctuation reference));
          hypothesis = Strip (ToLowerCase (RemovePunctuation hypothesis))
      in case process_words E reference hypothesis of
           Inl e \<Rightarrow> Inl e
         | Inr output \<Rightarrow>
             (case cer E reference hypothesis of
                Inl e \<Rightarrow> Inl e
              | Inr c \<Rightarrow> Inr (wer output, mer output, wil output, wip output, c)))"

text \<open>A library that raises \<^verbatim>\<open>ValueError\<close> for a reference without words.\<close>

definition raising :: empty_policy where
  "raising =
     \<lparr>words_empty = (\<lambda>reference hypothesis. Inl ValueError),
      chars_empty = (\<lambda>reference hypothesis. Inl ValueError)\<rparr>"

section \<open>The Vosk transcription loop\<close>

text \<open>
  \<^verbatim>\<open>ASR.vosk_recognition\<close>, lines 112 to 130. The recogniser is an object of the
  Vosk library; the model takes its three methods as functions on a recogniser
  state \<open>'r\<close>: \<open>AcceptWaveform\<close> consumes a chunk and says whether an utterance
  ended, \<open>Result\<close> and \<open>FinalResult\<close> give the \<^verbatim>\<open>"text"\<close> field of the JSON
  they return. The wave file is the list of its frames; \<^verbatim>\<open>wf.readframes(4000)\<close>
  takes the next 4000 frames, or what is left of them. The elapsed time that
  the method returns beside the sentence is left out.
\<close>

record 'r KaldiRecognizer =
  AcceptWaveform :: "'r \<Rightarrow> int list \<Rightarrow> bool \<times> 'r"
  Result :: "'r \<Rightarrow> string \<times> 'r"
  FinalResult :: "'r \<Rightarrow> string \<times> 'r"

function vosk_loop ::
  "'r KaldiRecognizer \<Rightarrow> 'r \<Rightarrow> int list \<Rightarrow> string \<Rightarrow> string \<times> 'r" where
  "vosk_loop K rec frames text =
     (if length (take 4000 frames) = 0 then (text, rec)
      else (case AcceptWaveform K rec (take 4000 frames) of
              (True, rec1) \<Rightarrow>
                (case Result K rec1 of
                   (t, rec2) \<Rightarrow> vosk_loop K rec2 (drop 4000 frames) (text @ '' '' @ t))
            | (False, rec1) \<Rightarrow> vosk_loop K rec1 (drop 4000 frames) text))"
  by pat_completeness auto
termination
  by (relation "measure (\<lambda>(K, rec, frames, text). length frames)") auto

declare vosk_loop.simps [simp del]

definition vosk_recognition :: "'r KaldiRecognizer \<Rightarrow> 'r \<Rightarrow> int list \<Rightarrow> string" where
  "vosk_recognition K rec frames =
     (case vosk_loop K rec frames [] of
        (text, rec1) \<Rightarrow> text @ '' '' @ fst (FinalResult K rec1))"

text \<open>
  The loop described in two steps, to compare it with: the file cut into
  chunks of \<open>n\<close> frames, and the recogniser fed with a list of chunks, giving
  the texts of the accepted results in order and the recogniser's last state.
\<close>

function chunks :: "nat \<Rightarrow> 'a list \<Rightarrow> 'a list list" where
  "chunks n xs = (if n = 0 \<or> xs = [] then [] else take n xs # chunks n (drop n xs))"
  by pat_completeness auto
termination
  by (relation "measure (\<lambda>(n, xs). length xs)") auto

declare chunks.simps [simp del]

fun feed :: "'r KaldiRecognizer \<Rightarrow> 'r \<Rightarrow> int list list \<Rightarrow> string list \<times> 'r" where
  "feed K rec [] = ([], rec)"
| "feed K rec (d # ds) =
     (case AcceptWaveform K rec d of
        (True, rec1) \<Rightarrow>
          (case Result K rec1 of
             (t, rec2) \<Rightarrow> (case feed K rec2 ds of (ts, rec3) \<Rightarrow> (t # ts, rec3)))
      | (False, rec1) \<Rightarrow> feed K rec1 ds)"

text \<open>
  A recogniser that ends an utterance at every chunk and hears nothing until
  the end of the stream, where it reports one word.
\<close>

definition quiet_recognizer :: "unit KaldiRecognizer" where
  "quiet_recognizer =
     \<lparr>AcceptWaveform = (\<lambda>r d. (True, r)), Result = (\<lambda>r. ([], r)),
      FinalResult = (\<lambda>r. (''hello'', r))\<rparr>"

section \<open>The evaluation after the recording\<close>

text \<open>
  Lines 236 to 256: the handler calls the Whisper method for the models
  \<^verbatim>\<open>base\<close> and \<^verbatim>\<open>large\<close>, then the Vosk method for the two models of the
  target language, scores each sentence against the reference \<^verbatim>\<open>"Test"\<close> and
  builds \<^verbatim>\<open>model_data\<close>. The two recognition methods are parameters \<open>W\<close> and
  \<open>V\<close>: what they return, a sentence and an elapsed time, or the error they
  raise; \<open>E\<close> is the parameter of the metric computation. An error anywhere
  ends the handler. The second component of the state
  is a history variable: the label of the row that each call of a recognition
  method feeds, in the order of the calls. The program never reads it.
\<close>

type_synonym metrics = "rat \<times> rat \<times> rat \<times> rat \<times> rat"

type_synonym 'a traced = "string list \<Rightarrow> (error + 'a) \<times> string list"

definition bind_t :: "'a traced \<Rightarrow> ('a \<Rightarrow> 'b traced) \<Rightarrow> 'b traced" where
  "bind_t m f tr = (case m tr of (Inl e, tr1) \<Rightarrow> (Inl e, tr1) | (Inr v, tr1) \<Rightarrow> f v tr1)"

definition lift :: "error + 'a \<Rightarrow> 'a traced" where
  "lift x tr = (x, tr)"

definition invoke :: "string \<Rightarrow> error + 'a \<Rightarrow> 'a traced" where
  "invoke label x tr = (x, tr @ [label])"

definition vosk_models_by_language :: "string \<rightharpoonup> (string \<rightharpoonup> string)" where
  "vosk_models_by_language = map_of
     [(''english'', map_of [(''base'', ''vosk-model-small-en-us-0.15''),
                            (''large'', ''vosk-model-en-us-0.42-gigaspeech'')]),
      (''italian'', map_of [(''base'', ''vosk-model-small-it-0.22''),
                            (''large'', ''vosk-model-it-0.22'')]),
      (''spanish'', map_of [(''base'', ''vosk-model-small-es-0.42''),
                            (''large'', ''vosk-model-es-0.42'')]),
      (''catalan'', map_of [(''base'', ''vosk-model-small-ca-0.4''),
                            (''large'', ''vosk-model-small-ca-0.4'')]),
      (''french'', map_of [(''base'', ''vosk-model-small-fr-0.22''),
                           (''large'', ''vosk-model-fr-0.22'')])]"

text \<open>\<^verbatim>\<open>vosk_models_by_language[args.target_language][size]\<close>; a missing key raises.\<close>

definition vosk_model :: "args \<Rightarrow> string \<Rightarrow> error + string" where
  "vosk_model a tier =
     (case target_language a of
        None \<Rightarrow> Inl KeyError
      | Some l \<Rightarrow>
          (case vosk_models_by_language l of
             None \<Rightarrow> Inl KeyError
           | Some m \<Rightarrow> (case m tier of None \<Rightarrow> Inl KeyError | Some name \<Rightarrow> Inr name)))"

definition evaluate ::
  "empty_policy \<Rightarrow>
   (string \<Rightarrow> string \<Rightarrow> string option \<Rightarrow> error + string \<times> 't) \<Rightarrow>
   (string \<Rightarrow> string \<Rightarrow> error + string \<times> 't) \<Rightarrow>
   args \<Rightarrow> string \<Rightarrow> (error + (string \<times> metrics) list) \<times> string list" where
  "evaluate E W V a dir_filename =
     bind_t (invoke ''whisper_small'' (W ''base'' dir_filename (target_language a)))
       (\<lambda>(whisper_s_model_sentence, t1).
     bind_t (lift (compute_error_rate E ''Test'' whisper_s_model_sentence))
       (\<lambda>ws.
     bind_t (invoke ''whisper_large'' (W ''large'' dir_filename (target_language a)))
       (\<lambda>(whisper_l_model_sentence, t2).
     bind_t (lift (compute_error_rate E ''Test'' whisper_l_model_sentence))
       (\<lambda>wl.
     bind_t (lift (vosk_model a ''base''))
       (\<lambda>vosk_small_model.
     bind_t (invoke ''vosk_small'' (V vosk_small_model dir_filename))
       (\<lambda>(vosk_s_model_sentence, t3).
     bind_t (lift (compute_error_rate E ''Test'' vosk_s_model_sentence))
       (\<lambda>vs.
     bind_t (lift (vosk_model a ''large''))
       (\<lambda>vosk_large_model.
     bind_t (invoke ''vosk_large'' (V vosk_large_model dir_filename))
       (\<lambda>(vosk_l_model_sentence, t4).
     bind_t (lift (compute_error_rate E ''Test'' vosk_l_model_sentence))
       (\<lambda>vl.
     lift (Inr [(''vosk_small'', vs), (''vosk_large'', vl),
                (''whisper_small'', ws), (''whisper_large'', wl)]))))))))))) []"

text \<open>The same recognition result with another elapsed time.\<close>

definition with_latency :: "('t \<Rightarrow> 'u) \<Rightarrow> error + string \<times> 't \<Rightarrow> error + string \<times> 'u" where
  "with_latency g r = (case r of Inl e \<Rightarrow> Inl e | Inr (s, t) \<Rightarrow> Inr (s, g t))"

text \<open>
  Two recognition methods: one hears the reference and takes 3 seconds, the
  other hears a different word and takes 1 second.
\<close>

definition echo_whisper :: "string \<Rightarrow> string \<Rightarrow> string option \<Rightarrow> error + string \<times> nat" where
  "echo_whisper model_name file_name language_id = Inr ('' Test.'', 3)"

definition near_vosk :: "string \<Rightarrow> string \<Rightarrow> error + string \<times> nat" where
  "near_vosk model_name file_name = Inr ('' tests'', 1)"

subsection \<open>Invariant of the capture loop\<close>

lemma run_Nil [simp]: "run [] s = s"
  by (simp add: run_def)

lemma run_Cons [simp]: "run (e # evs) s = run evs (step e s)"
  by (simp add: run_def)

lemma run_append: "run (evs @ evs') s = run evs' (run evs s)"
  by (simp add: run_def)

lemma append_eq_prefix: "xs @ ys = zs \<Longrightarrow> prefix xs zs"
  by (auto simp: prefix_def)

lemma capture_inv_init: "capture_inv init"
  by (simp add: capture_inv_def init_def pending_def)

lemma capture_inv_step: "capture_inv s \<Longrightarrow> capture_inv (step e s)"
proof (cases e)
  case (Callback b)
  then show "capture_inv s \<Longrightarrow> capture_inv (step e s)"
    by (auto simp: capture_inv_def pending_def split: option.splits)
next
  case Get
  then show "capture_inv s \<Longrightarrow> capture_inv (step e s)"
    by (cases "q s") (auto simp: capture_inv_def pending_def split: option.splits)
next
  case Write
  then show "capture_inv s \<Longrightarrow> capture_inv (step e s)"
    by (auto simp: capture_inv_def pending_def split: option.splits)
next
  case Interrupt
  then show "capture_inv s \<Longrightarrow> capture_inv (step e s)"
    by (auto simp: capture_inv_def pending_def split: option.splits
             intro: append_eq_prefix)
qed

lemma capture_inv_run: "capture_inv s \<Longrightarrow> capture_inv (run evs s)"
  by (induction evs arbitrary: s) (simp_all add: capture_inv_step)

lemma phase_run_no_interrupt:
  "Interrupt \<notin> set evs \<Longrightarrow> phase (run evs s) = phase s"
proof (induction evs arbitrary: s)
  case Nil
  then show ?case by simp
next
  case (Cons e evs)
  then have "phase (step e s) = phase s"
    by (cases e) (auto split: list.splits option.splits)
  with Cons show ?case by simp
qed

lemma step_Stopped: "phase s = Stopped \<Longrightarrow> step e s = s"
  by (cases e) simp_all

lemma run_Stopped: "phase s = Stopped \<Longrightarrow> run evs s = s"
  by (induction evs) (simp_all add: step_Stopped)

text \<open>
  C10. Whatever the interleaving of callback, queue read, file write and
  interrupt, the blocks in the output file are an initial segment of the blocks
  the callback enqueued, in the same order: nothing is reordered and nothing is
  written twice.
\<close>

theorem written_prefix_of_enqueued:
  "prefix (outfile (run evs init)) (put_log (run evs init))"
proof -
  have "capture_inv (run evs init)"
    by (rule capture_inv_run [OF capture_inv_init])
  then show ?thesis
    by (auto simp: capture_inv_def split: if_splits intro: append_eq_prefix)
qed

text \<open>
  C1, as the code has it. Up to the interrupt, the enqueued blocks are the
  blocks in the file followed by the pending ones (the block taken from the
  queue and not yet written, then the queue). The interrupt and everything
  after it write nothing: the file keeps exactly the blocks written before the
  interrupt, and the pending blocks are never written.
\<close>

theorem interrupt_writes_nothing_more:
  assumes "Interrupt \<notin> set evs"
  shows "outfile (run (evs @ Interrupt # evs') init) = outfile (run evs init)
       \<and> put_log (run (evs @ Interrupt # evs') init) = put_log (run evs init)
       \<and> outfile (run evs init) @ pending (run evs init) = put_log (run evs init)"
proof -
  let ?s = "run evs init"
  have rec: "phase ?s = Recording"
    using phase_run_no_interrupt [OF assms, of init] by (simp add: init_def)
  have "capture_inv ?s"
    by (rule capture_inv_run [OF capture_inv_init])
  with rec have inv: "outfile ?s @ pending ?s = put_log ?s"
    by (simp add: capture_inv_def)
  have stopped: "phase (step Interrupt ?s) = Stopped"
    using rec by simp
  have "run (evs @ Interrupt # evs') init = run evs' (step Interrupt ?s)"
    by (simp add: run_append)
  also have "\<dots> = step Interrupt ?s"
    by (rule run_Stopped [OF stopped])
  finally have "run (evs @ Interrupt # evs') init = step Interrupt ?s" .
  then show ?thesis
    using rec inv by simp
qed

theorem interrupt_writes_nothing_more_witness:
  "Interrupt \<notin> set [Callback [1], Callback [2], Get, Write]
   \<and> outfile (run ([Callback [1], Callback [2], Get, Write] @ Interrupt # [Get, Write]) init)
       = [[1]]
   \<and> put_log (run ([Callback [1], Callback [2], Get, Write] @ Interrupt # [Get, Write]) init)
       = [[1], [2]]
   \<and> pending (run [Callback [1], Callback [2], Get, Write] init) = [[2]]"
  using interrupt_writes_nothing_more
    [of "[Callback [1], Callback [2], Get, Write]" "[Get, Write]"]
  by (simp add: init_def pending_def)

theorem queued_block_lost_on_interrupt:
  "phase (run backlog_schedule init) = Stopped
   \<and> put_log (run backlog_schedule init) = [[1], [2]]
   \<and> outfile (run backlog_schedule init) = [[1]]"
  by (simp add: backlog_schedule_def init_def)

subsection \<open>Opening the output file\<close>

text \<open>
  C3, as the code has it. The file is always opened in exclusive-create mode,
  and there is no overwrite option. With a file name on the command line, a
  path that exists makes the start fail and leaves the file system as it was;
  the error is the library's \<^verbatim>\<open>OSError\<close> "File exists" unless the library
  refuses the arguments first. Without a file name, the path is
  \<^verbatim>\<open>recording.wav\<close>: a file already there is removed first and the line
  "Removed existing file: recording.wav" is printed, whether or not the open
  succeeds afterwards. In both cases, when the path is free and the library
  accepts the file name, rate, channels and subtype, an empty file is created
  at the path.
\<close>

theorem session_start_exclusive:
  assumes "resolve_samplerate a dev = Inr rate"
  shows "(filename a = Some p \<and> fsys p \<noteq> None \<longrightarrow>
            (\<exists>e. session_start L a dev fsys = (Inl e, fsys, []))
          \<and> (info_error L p rate (channels a) (subtype a) = None \<longrightarrow>
                session_start L a dev fsys = (Inl (File_exists p), fsys, [])))
       \<and> (filename a = Some p \<and> fsys p = None
          \<and> info_error L p rate (channels a) (subtype a) = None
          \<and> open_error L p rate (channels a) (subtype a) = None \<longrightarrow>
            session_start L a dev fsys = (Inr (p, rate), fsys(p \<mapsto> []), []))
       \<and> (filename a = None
          \<and> info_error L ''recording.wav'' rate (channels a) (subtype a) = None
          \<and> open_error L ''recording.wav'' rate (channels a) (subtype a) = None \<longrightarrow>
            session_start L a dev fsys =
              (Inr (''recording.wav'', rate), fsys(''recording.wav'' \<mapsto> []),
               if fsys ''recording.wav'' \<noteq> None
               then [''Removed existing file: recording.wav''] else []))
       \<and> (filename a = None
          \<and> info_error L ''recording.wav'' rate (channels a) (subtype a) = Some e \<longrightarrow>
            session_start L a dev fsys =
              (Inl e, fsys(''recording.wav'' := None),
               if fsys ''recording.wav'' \<noteq> None
               then [''Removed existing file: recording.wav''] else []))
       \<and> (filename a = None
          \<and> info_error L ''recording.wav'' rate (channels a) (subtype a) = None
          \<and> open_error L ''recording.wav'' rate (channels a) (subtype a) = Some e \<longrightarrow>
            session_start L a dev fsys =
              (Inl e, failed_open L ''recording.wav'' (fsys(''recording.wav'' := None)),
               if fsys ''recording.wav'' \<noteq> None
               then [''Removed existing file: recording.wav''] else []))"
proof -
  have free: "fsys ''recording.wav'' = None \<Longrightarrow> fsys(''recording.wav'' := None) = fsys"
    by (rule ext) simp
  show ?thesis
    using assms free
    by (auto simp: session_start_def resolve_filename_def SoundFile_x_def
             split: option.splits)
qed

theorem session_start_exclusive_witness:
  "resolve_samplerate default_args (Inr 44100) = Inr 16000
   \<and> session_start rate_checking_lib (default_args\<lparr>filename := Some ''recording.wav''\<rparr>)
         (Inr 44100) old_recording
       = (Inl (File_exists ''recording.wav''), old_recording, [])
   \<and> session_start rate_checking_lib (default_args\<lparr>filename := Some ''new.wav''\<rparr>)
         (Inr 44100) old_recording
       = (Inr (''new.wav'', 16000), old_recording(''new.wav'' \<mapsto> []), [])
   \<and> session_start rate_checking_lib default_args (Inr 44100) old_recording
       = (Inr (''recording.wav'', 16000), old_recording(''recording.wav'' \<mapsto> []),
          [''Removed existing file: recording.wav''])
   \<and> session_start rate_checking_lib (default_args\<lparr>samplerate := Some 2147483648\<rparr>)
         (Inr 44100) old_recording
       = (Inl OverflowError, old_recording(''recording.wav'' := None),
          [''Removed existing file: recording.wav''])
   \<and> session_start rate_checking_lib (default_args\<lparr>samplerate := Some 0\<rparr>)
         (Inr 44100) old_recording
       = (Inl LibsndfileError, old_recording(''recording.wav'' := None),
          [''Removed existing file: recording.wav''])"
proof -
  have r: "resolve_samplerate default_args (Inr 44100) = Inr 16000"
    by (simp add: resolve_samplerate_def default_args_def)
  have r1: "resolve_samplerate (default_args\<lparr>filename := Some ''recording.wav''\<rparr>) (Inr 44100)
      = Inr 16000"
    by (simp add: resolve_samplerate_def default_args_def)
  have r2: "resolve_samplerate (default_args\<lparr>filename := Some ''new.wav''\<rparr>) (Inr 44100)
      = Inr 16000"
    by (simp add: resolve_samplerate_def default_args_def)
  have r3: "resolve_samplerate (default_args\<lparr>samplerate := Some 2147483648\<rparr>) (Inr 44100)
      = Inr 2147483648"
    by (simp add: resolve_samplerate_def default_args_def)
  have r4: "resolve_samplerate (default_args\<lparr>samplerate := Some 0\<rparr>) (Inr 44100) = Inr 0"
    by (simp add: resolve_samplerate_def default_args_def)
  have e: "old_recording ''recording.wav'' \<noteq> None" "old_recording ''new.wav'' = None"
    by (simp_all add: old_recording_def)
  have f: "filename default_args = None"
    by (simp add: default_args_def)
  show ?thesis
    using r e f
      session_start_exclusive
        [OF r1, of "''recording.wav''" old_recording rate_checking_lib]
      session_start_exclusive
        [OF r2, of "''new.wav''" old_recording rate_checking_lib]
      session_start_exclusive
        [OF r, of "''recording.wav''" old_recording rate_checking_lib]
      session_start_exclusive
        [OF r3, of "''recording.wav''" old_recording rate_checking_lib OverflowError]
      session_start_exclusive
        [OF r4, of "''recording.wav''" old_recording rate_checking_lib LibsndfileError]
    by (simp add: rate_checking_lib_def default_args_def)
qed

theorem default_recording_replaced:
  "filename default_args = None
   \<and> old_recording ''recording.wav'' = Some [[7, 7], [8, 8]]
   \<and> fst (session_start rate_checking_lib default_args (Inr 44100) old_recording)
       = Inr (''recording.wav'', 16000)
   \<and> fst (snd (session_start rate_checking_lib default_args (Inr 44100) old_recording))
         ''recording.wav'' = Some []"
  by (simp add: session_start_def resolve_samplerate_def resolve_filename_def SoundFile_x_def
        rate_checking_lib_def default_args_def old_recording_def)

subsection \<open>Text normalisation\<close>

lemma to_lower_char_idem: "to_lower_char (to_lower_char c) = to_lower_char c"
  by (auto simp: to_lower_char_def Let_def)

lemma is_punctuation_to_lower: "is_punctuation (to_lower_char c) = is_punctuation c"
  by (auto simp: to_lower_char_def is_punctuation_def Let_def)

lemma is_space_to_lower: "is_space (to_lower_char c) = is_space c"
  by (auto simp: to_lower_char_def is_space_def Let_def)

lemma set_Strip: "set (Strip s) \<subseteq> set s"
proof
  fix x assume "x \<in> set (Strip s)"
  then have "x \<in> set (dropWhile is_space (rev (dropWhile is_space s)))"
    by (simp add: Strip_def)
  then have "x \<in> set (rev (dropWhile is_space s))"
    by (rule set_dropWhileD)
  then have "x \<in> set (dropWhile is_space s)" by simp
  then show "x \<in> set s" by (rule set_dropWhileD)
qed

lemma Strip_ends:
  assumes "Strip s \<noteq> []"
  shows "\<not> is_space (hd (Strip s))" and "\<not> is_space (last (Strip s))"
proof -
  let ?y = "dropWhile is_space s"
  let ?z = "dropWhile is_space (rev ?y)"
  from assms have z: "?z \<noteq> []" by (simp add: Strip_def)
  then have y: "?y \<noteq> []" by (auto dest: set_dropWhileD)
  have hy: "\<not> is_space (hd ?y)" by (rule hd_dropWhile [OF y])
  have "hd ?y \<in> set (rev ?y)" using y by simp
  then have "last ?z = last (rev ?y)" using hy by (rule dropWhile_last)
  then have "last ?z = hd ?y" using y by (simp add: last_rev)
  moreover have "hd (Strip s) = last ?z" using z by (simp add: Strip_def hd_rev)
  ultimately show "\<not> is_space (hd (Strip s))" using hy by simp
  have "last (Strip s) = hd ?z" using z by (simp add: Strip_def last_rev)
  then show "\<not> is_space (last (Strip s))" using hd_dropWhile [OF z] by simp
qed

lemma Strip_id:
  assumes "s = [] \<or> (\<not> is_space (hd s) \<and> \<not> is_space (last s))"
  shows "Strip s = s"
proof (cases "s = []")
  case True
  then show ?thesis by (simp add: Strip_def)
next
  case False
  with assms have h: "\<not> is_space (hd s)" and l: "\<not> is_space (last s)" by auto
  have 1: "dropWhile is_space s = s" using h by (simp add: dropWhile_eq_self_iff)
  have "hd (rev s) = last s" using False by (simp add: hd_rev)
  then have 2: "dropWhile is_space (rev s) = rev s" using l by (simp add: dropWhile_eq_self_iff)
  show ?thesis by (simp add: Strip_def 1 2)
qed

lemma Strip_idem: "Strip (Strip s) = Strip s"
  by (rule Strip_id) (use Strip_ends in blast)

lemma normalize_chars:
  assumes "c \<in> set (normalize_text s)"
  shows "\<not> is_punctuation c" and "to_lower_char c = c"
proof -
  from assms set_Strip have "c \<in> set (ToLowerCase (RemovePunctuation s))"
    unfolding normalize_text_def by blast
  then obtain d where d: "c = to_lower_char d" "\<not> is_punctuation d"
    by (auto simp: ToLowerCase_def RemovePunctuation_def)
  show "\<not> is_punctuation c" using d by (simp add: is_punctuation_to_lower)
  show "to_lower_char c = c" using d by (simp add: to_lower_char_idem)
qed

text \<open>
  C4. Normalising twice is the same as normalising once: the result of the
  three preprocessing steps has no punctuation, no capital letter and no white
  space at either end, so each step leaves it as it is.
\<close>

theorem normalize_idempotent: "normalize_text (normalize_text s) = normalize_text s"
proof -
  have 1: "RemovePunctuation (normalize_text s) = normalize_text s"
    unfolding RemovePunctuation_def by (rule filter_True) (simp add: normalize_chars)
  have 2: "ToLowerCase (normalize_text s) = normalize_text s"
    unfolding ToLowerCase_def by (rule map_idI) (simp add: normalize_chars)
  have 3: "Strip (normalize_text s) = normalize_text s"
    unfolding normalize_text_def by (rule Strip_idem)
  show ?thesis
    by (subst (1) normalize_text_def) (simp only: 1 2 3)
qed

subsection \<open>The alignment has least cost\<close>

lemma count_edit_Nil [simp]: "count_edit e [] = 0"
  by (simp add: count_edit_def)

lemma count_edit_Cons [simp]:
  "count_edit e (x # es) = (if x = e then Suc (count_edit e es) else count_edit e es)"
  by (simp add: count_edit_def)

lemma count_edit_replicate [simp]:
  "count_edit e (replicate n x) = (if x = e then n else 0)"
  by (induction n) auto

lemma cost_Nil [simp]: "cost [] = 0"
  by (simp add: cost_def)

lemma cost_Cons [simp]: "cost (e # es) = (if e = Hit then cost es else Suc (cost es))"
  by (cases e) (simp_all add: cost_def)

lemma cost_cheaper: "cost (cheaper es fs) = min (cost es) (cost fs)"
  by (simp add: cheaper_def)

lemma aligns_cheaper:
  "aligns es xs ys \<Longrightarrow> aligns fs xs ys \<Longrightarrow> aligns (cheaper es fs) xs ys"
  by (simp add: cheaper_def)

lemma aligns_editops: "aligns (editops xs ys) xs ys"
  by (induction xs ys rule: editops.induct) (simp_all add: aligns_cheaper)

lemma aligns_lengths:
  "aligns es xs ys \<Longrightarrow>
     count_edit Hit es + count_edit Replace es + count_edit Delete es = length xs
   \<and> count_edit Hit es + count_edit Replace es + count_edit Insert es = length ys"
  by (induction es xs ys rule: aligns.induct) auto

lemma drop_target:
  "aligns es xs (y # ys) \<Longrightarrow> \<exists>fs. aligns fs xs ys \<and> cost fs \<le> Suc (cost es)"
proof (induction es arbitrary: xs)
  case Nil
  then show ?case by simp
next
  case (Cons e es)
  show ?case
  proof (cases e)
    case Hit
    with Cons.prems obtain x xs' where "xs = x # xs'" "aligns es xs' ys"
      by (cases xs) auto
    then have "aligns (Delete # es) xs ys" by simp
    then show ?thesis using Hit by (intro exI [of _ "Delete # es"]) simp
  next
    case Replace
    with Cons.prems obtain x xs' where "xs = x # xs'" "aligns es xs' ys"
      by (cases xs) auto
    then have "aligns (Delete # es) xs ys" by simp
    then show ?thesis using Replace by (intro exI [of _ "Delete # es"]) simp
  next
    case Delete
    with Cons.prems obtain x xs' where xs: "xs = x # xs'" and "aligns es xs' (y # ys)"
      by (cases xs) auto
    from Cons.IH [OF this(2)] obtain fs where "aligns fs xs' ys" "cost fs \<le> Suc (cost es)"
      by blast
    then show ?thesis using Delete xs by (intro exI [of _ "Delete # fs"]) simp
  next
    case Insert
    with Cons.prems have "aligns es xs ys" by (cases xs) auto
    then show ?thesis using Insert by (intro exI [of _ es]) simp
  qed
qed

lemma drop_source:
  "aligns es (x # xs) ys \<Longrightarrow> \<exists>fs. aligns fs xs ys \<and> cost fs \<le> Suc (cost es)"
proof (induction es arbitrary: ys)
  case Nil
  then show ?case by simp
next
  case (Cons e es)
  show ?case
  proof (cases e)
    case Hit
    with Cons.prems obtain y ys' where "ys = y # ys'" "aligns es xs ys'"
      by (cases ys) auto
    then have "aligns (Insert # es) xs ys" by (cases xs) simp_all
    then show ?thesis using Hit by (intro exI [of _ "Insert # es"]) simp
  next
    case Replace
    with Cons.prems obtain y ys' where "ys = y # ys'" "aligns es xs ys'"
      by (cases ys) auto
    then have "aligns (Insert # es) xs ys" by (cases xs) simp_all
    then show ?thesis using Replace by (intro exI [of _ "Insert # es"]) simp
  next
    case Delete
    with Cons.prems have "aligns es xs ys" by simp
    then show ?thesis using Delete by (intro exI [of _ es]) simp
  next
    case Insert
    with Cons.prems obtain y ys' where ys: "ys = y # ys'" and "aligns es (x # xs) ys'"
      by (cases ys) auto
    from Cons.IH [OF this(2)] obtain fs where "aligns fs xs ys'" "cost fs \<le> Suc (cost es)"
      by blast
    then show ?thesis using Insert ys by (intro exI [of _ "Insert # fs"]) (cases xs; simp)
  qed
qed

lemma editops_minimal: "aligns es xs ys \<Longrightarrow> cost (editops xs ys) \<le> cost es"
proof (induction xs ys arbitrary: es rule: editops.induct)
  case 1
  then show ?case by simp
next
  case (2 y ys)
  then obtain es' where "es = Insert # es'" "aligns es' [] ys"
    by (cases es; cases "hd es") auto
  with 2 show ?case by auto
next
  case (3 x xs)
  then obtain es' where "es = Delete # es'" "aligns es' xs []"
    by (cases es; cases "hd es") auto
  with 3 show ?case by auto
next
  case (4 x xs y ys)
  from "4.prems" obtain e es' where es: "es = e # es'"
    by (cases es) auto
  show ?case
  proof (cases "x = y")
    case True
    have "\<exists>fs. aligns fs xs ys \<and> cost fs \<le> cost es"
    proof (cases e)
      case Hit
      with es "4.prems" show ?thesis by (intro exI [of _ es']) simp
    next
      case Replace
      with es "4.prems" True show ?thesis by simp
    next
      case Delete
      with es "4.prems" have "aligns es' xs (y # ys)" by simp
      from drop_target [OF this] show ?thesis using es Delete by auto
    next
      case Insert
      with es "4.prems" have "aligns es' (x # xs) ys" by simp
      from drop_source [OF this] show ?thesis using es Insert by auto
    qed
    then obtain fs where "aligns fs xs ys" "cost fs \<le> cost es" by blast
    with "4.IH"(1) [OF True, of fs] True show ?thesis by simp
  next
    case False
    show ?thesis
    proof (cases e)
      case Hit
      with es "4.prems" False show ?thesis by simp
    next
      case Replace
      with es "4.prems" have "aligns es' xs ys" by simp
      from "4.IH"(2) [OF False this] show ?thesis
        using False es Replace by (simp add: cost_cheaper)
    next
      case Delete
      with es "4.prems" have "aligns es' xs (y # ys)" by simp
      from "4.IH"(3) [OF False this] show ?thesis
        using False es Delete by (simp add: cost_cheaper)
    next
      case Insert
      with es "4.prems" have "aligns es' (x # xs) ys" by simp
      from "4.IH"(4) [OF False this] show ?thesis
        using False es Insert by (simp add: cost_cheaper)
    qed
  qed
qed

lemma editops_same: "editops xs xs = replicate (length xs) Hit"
  by (induction xs) simp_all

lemma editops_Nil2: "editops xs [] = replicate (length xs) Delete"
  by (induction xs) simp_all

subsection \<open>Words and measures\<close>

lemma is_space_blank: "is_space CHR '' ''"
  by (simp add: is_space_def)

lemma RemoveMultipleSpaces_hd:
  assumes "s \<noteq> []" and "\<not> is_space (hd s)"
  shows "RemoveMultipleSpaces s \<noteq> [] \<and> hd (RemoveMultipleSpaces s) = hd s"
proof (cases s)
  case Nil
  with assms show ?thesis by simp
next
  case (Cons c cs)
  with assms show ?thesis by (cases cs) simp_all
qed

lemma Strip_hd:
  assumes "s \<noteq> []" and "\<not> is_space (hd s)"
  shows "Strip s \<noteq> [] \<and> hd (Strip s) = hd s"
proof -
  have 1: "dropWhile is_space s = s"
    using assms by (simp add: dropWhile_eq_self_iff)
  have in_rev: "hd s \<in> set (rev s)" using assms by simp
  have z: "dropWhile is_space (rev s) \<noteq> []"
    using in_rev assms(2) by auto
  have "last (dropWhile is_space (rev s)) = last (rev s)"
    using in_rev assms(2) by (rule dropWhile_last)
  then have "last (dropWhile is_space (rev s)) = hd s"
    using assms(1) by (simp add: last_rev)
  then show ?thesis
    using z by (simp add: Strip_def 1 hd_rev)
qed

lemma split_words_nonempty:
  "w \<noteq> [] \<or> (\<exists>c\<in>set s. c \<noteq> CHR '' '') \<Longrightarrow> split_words w s \<noteq> []"
  by (induction s arbitrary: w) auto

lemma words_of_nonempty:
  assumes "s \<noteq> []" and "\<not> is_space (hd s)"
  shows "words_of s \<noteq> []"
proof -
  let ?t = "RemoveMultipleSpaces s"
  from RemoveMultipleSpaces_hd [OF assms]
  have t: "?t \<noteq> []" "\<not> is_space (hd ?t)" using assms(2) by simp_all
  from Strip_hd [OF t] have u: "Strip ?t \<noteq> []" "\<not> is_space (hd (Strip ?t))"
    using t(2) by simp_all
  then have "hd (Strip ?t) \<noteq> CHR '' ''" using is_space_blank by auto
  moreover have "hd (Strip ?t) \<in> set (Strip ?t)" using u(1) by simp
  ultimately show ?thesis
    unfolding words_of_def by (intro split_words_nonempty) blast
qed

lemma words_of_Strip_nonempty: "Strip s \<noteq> [] \<Longrightarrow> words_of (Strip s) \<noteq> []"
  by (rule words_of_nonempty) (simp_all add: Strip_ends)

lemma words_of_Nil: "words_of [] = []"
  by (simp add: words_of_def Strip_def)

lemma measures_same:
  assumes "r \<noteq> []"
  shows "measures r r =
    \<lparr>wer = 0, mer = 0, wil = 0, wip = 1, hits = length r, substitutions = 0,
     deletions = 0, insertions = 0\<rparr>"
  using assms by (cases r) (simp_all add: measures_def editops_same Let_def)

lemma measures_Nil2:
  assumes "r \<noteq> []"
  shows "measures r [] =
    \<lparr>wer = 1, mer = 1, wil = 1, wip = 0, hits = 0, substitutions = 0,
     deletions = length r, insertions = 0\<rparr>"
  using assms by (cases r) (simp_all add: measures_def editops_Nil2 Let_def)

lemma wer_measures:
  "wer (measures r h) = of_nat (cost (editops r h)) / of_nat (length r)"
proof -
  have "count_edit Hit (editops r h) + count_edit Replace (editops r h)
        + count_edit Delete (editops r h) = length r"
    using aligns_lengths [OF aligns_editops, of r h] by simp
  then show ?thesis
    by (simp add: measures_def Let_def cost_def)
qed

subsection \<open>The metric computation\<close>

lemma Strip_normalize_text: "Strip (normalize_text s) = normalize_text s"
  unfolding normalize_text_def by (rule Strip_idem)

lemma compute_error_rate_defined:
  assumes "normalize_text reference \<noteq> []"
  shows "compute_error_rate E reference hypothesis =
     Inr (wer (measures (words_of (normalize_text reference)) (words_of (normalize_text hypothesis))),
          mer (measures (words_of (normalize_text reference)) (words_of (normalize_text hypothesis))),
          wil (measures (words_of (normalize_text reference)) (words_of (normalize_text hypothesis))),
          wip (measures (words_of (normalize_text reference)) (words_of (normalize_text hypothesis))),
          wer (measures (normalize_text reference) (normalize_text hypothesis)))"
proof -
  have w: "words_of (normalize_text reference) \<noteq> []"
    using assms words_of_Strip_nonempty [of "ToLowerCase (RemovePunctuation reference)"]
    by (simp add: normalize_text_def)
  have p: "process_words E (normalize_text reference) (normalize_text hypothesis) =
      Inr (measures (words_of (normalize_text reference)) (words_of (normalize_text hypothesis)))"
    using assms w by (simp add: process_words_def)
  have c: "cer E (normalize_text reference) (normalize_text hypothesis) =
      Inr (wer (measures (normalize_text reference) (normalize_text hypothesis)))"
    using assms by (simp add: cer_def Strip_normalize_text)
  show ?thesis
    unfolding compute_error_rate_def normalize_text_def [symmetric] Let_def
    by (simp only: p c sum.case)
qed

text \<open>
  C5. For a string that is already normalised and not empty, used as reference
  and as hypothesis, the five measures are wer = 0, mer = 0, wil = 0, wip = 1
  and cer = 0.
\<close>

theorem identical_strings_zero_error:
  assumes "normalize_text s = s" and "s \<noteq> []"
  shows "compute_error_rate E s s = Inr (0, 0, 0, 1, 0)"
proof -
  have n: "normalize_text s \<noteq> []" using assms by simp
  then have w: "words_of (normalize_text s) \<noteq> []"
    using words_of_Strip_nonempty [of "ToLowerCase (RemovePunctuation s)"]
    by (simp add: normalize_text_def)
  show ?thesis
    by (simp add: compute_error_rate_defined [OF n] measures_same [OF w] measures_same [OF n])
qed

theorem identical_strings_zero_error_witness:
  "normalize_text ''the quick brown fox'' = ''the quick brown fox''
   \<and> ''the quick brown fox'' \<noteq> []
   \<and> compute_error_rate raising ''the quick brown fox'' ''the quick brown fox'' = Inr (0, 0, 0, 1, 0)"
proof -
  have n: "normalize_text ''the quick brown fox'' = ''the quick brown fox''"
    by code_simp
  have e: "''the quick brown fox'' \<noteq> []"
    by simp
  show ?thesis
    using n e identical_strings_zero_error [OF n e, of raising] by simp
qed

text \<open>
  C6. When the reference is not empty after normalisation and the hypothesis
  is the empty string, every reference word is a deletion, there is no hit, no
  substitution and no insertion, and the result is wer = 1 (with mer = 1,
  wil = 1, wip = 0 and cer = 1).
\<close>

theorem empty_hypothesis_all_deletions:
  assumes "normalize_text reference \<noteq> []"
  shows "compute_error_rate E reference [] = Inr (1, 1, 1, 0, 1)
       \<and> deletions (measures (words_of (normalize_text reference)) (words_of (normalize_text [])))
           = length (words_of (normalize_text reference))
       \<and> hits (measures (words_of (normalize_text reference)) (words_of (normalize_text []))) = 0
       \<and> substitutions (measures (words_of (normalize_text reference)) (words_of (normalize_text []))) = 0
       \<and> insertions (measures (words_of (normalize_text reference)) (words_of (normalize_text []))) = 0"
proof -
  have e: "normalize_text [] = []"
    by (simp add: normalize_text_def RemovePunctuation_def ToLowerCase_def Strip_def)
  have w: "words_of (normalize_text reference) \<noteq> []"
    using assms words_of_Strip_nonempty [of "ToLowerCase (RemovePunctuation reference)"]
    by (simp add: normalize_text_def)
  show ?thesis
    by (simp add: compute_error_rate_defined [OF assms] e words_of_Nil
          measures_Nil2 [OF w] measures_Nil2 [OF assms])
qed

theorem empty_hypothesis_all_deletions_witness:
  "normalize_text ''The quick, brown fox!'' \<noteq> []
   \<and> compute_error_rate raising ''The quick, brown fox!'' [] = Inr (1, 1, 1, 0, 1)
   \<and> deletions (measures (words_of (normalize_text ''The quick, brown fox!''))
                           (words_of (normalize_text []))) = 4"
proof -
  have n: "normalize_text ''The quick, brown fox!'' \<noteq> []"
    by code_simp
  have l: "length (words_of (normalize_text ''The quick, brown fox!'')) = 4"
    by code_simp
  show ?thesis
    using n l empty_hypothesis_all_deletions [OF n, of raising] by simp
qed

lemma fox_words:
  "words_of (normalize_text ''the quick brown fox'') = [''the'', ''quick'', ''brown'', ''fox'']"
  "words_of (normalize_text ''the quick fox'') = [''the'', ''quick'', ''fox'']"
  by code_simp+


text \<open>
  C7. When the reference is not empty after normalisation, the word error rate
  is (S + D + I) / N: S, D and I count the substitutions, deletions and
  insertions of an alignment of the reference words with the hypothesis words
  that no other alignment undercuts, and N is the number of reference words.
  For the reference "the quick brown fox" and the hypothesis "the quick fox"
  the word error rate is 1/4.
\<close>

theorem wer_is_edit_cost_per_reference_word:
  assumes "normalize_text reference \<noteq> []"
    and "r = words_of (normalize_text reference)"
    and "h = words_of (normalize_text hypothesis)"
  shows "aligns (editops r h) r h
       \<and> (\<forall>es. aligns es r h \<longrightarrow> cost (editops r h) \<le> cost es)
       \<and> (\<exists>m l p c. compute_error_rate E reference hypothesis =
             Inr (of_nat (count_edit Replace (editops r h) + count_edit Delete (editops r h)
                          + count_edit Insert (editops r h)) / of_nat (length r), m, l, p, c))
       \<and> (\<exists>m l p c. compute_error_rate E ''the quick brown fox'' ''the quick fox'' =
             Inr (1 / 4, m, l, p, c))"
proof -
  have n: "normalize_text ''the quick brown fox'' \<noteq> []"
    by code_simp
  have "wer (measures r h) =
      of_nat (count_edit Replace (editops r h) + count_edit Delete (editops r h)
              + count_edit Insert (editops r h)) / of_nat (length r)"
    by (simp add: wer_measures cost_def)
  then have general: "\<exists>m l p c. compute_error_rate E reference hypothesis =
      Inr (of_nat (count_edit Replace (editops r h) + count_edit Delete (editops r h)
                   + count_edit Insert (editops r h)) / of_nat (length r), m, l, p, c)"
    using compute_error_rate_defined [OF assms(1), of E hypothesis] assms(2,3) by simp
  have "wer (measures (words_of (normalize_text ''the quick brown fox''))
                      (words_of (normalize_text ''the quick fox''))) = 1 / 4"
    by (simp add: wer_measures fox_words cheaper_def)
  then have example: "\<exists>m l p c. compute_error_rate E ''the quick brown fox'' ''the quick fox'' =
      Inr (1 / 4, m, l, p, c)"
    using compute_error_rate_defined [OF n, of E "''the quick fox''"] by simp
  show ?thesis
    using aligns_editops [of r h] editops_minimal [of _ r h] general example by blast
qed

theorem wer_is_edit_cost_per_reference_word_witness:
  "normalize_text ''the quick brown fox'' \<noteq> []
   \<and> [''the'', ''quick'', ''brown'', ''fox''] = words_of (normalize_text ''the quick brown fox'')
   \<and> [''the'', ''quick'', ''fox''] = words_of (normalize_text ''the quick fox'')
   \<and> aligns [Hit, Hit, Delete, Hit] [''the'', ''quick'', ''brown'', ''fox''] [''the'', ''quick'', ''fox'']
   \<and> cost (editops [''the'', ''quick'', ''brown'', ''fox''] [''the'', ''quick'', ''fox''])
       \<le> cost [Hit, Hit, Delete, Hit]
   \<and> (\<exists>m l p c. compute_error_rate raising ''the quick brown fox'' ''the quick fox'' =
         Inr (1 / 4, m, l, p, c))"
proof -
  have n: "normalize_text ''the quick brown fox'' \<noteq> []"
    by code_simp
  have a: "aligns [Hit, Hit, Delete, Hit] [''the'', ''quick'', ''brown'', ''fox''] [''the'', ''quick'', ''fox'']"
    by simp
  show ?thesis
    using n a fox_words
      wer_is_edit_cost_per_reference_word
        [OF n fox_words(1) [symmetric] fox_words(2) [symmetric], of raising]
    by (simp add: cheaper_def)
qed

subsection \<open>The Vosk transcription loop\<close>


lemma chunks_Nil [simp]: "chunks n [] = []"
  by (simp add: chunks.simps)

lemma chunks_Cons:
  "0 < n \<Longrightarrow> xs \<noteq> [] \<Longrightarrow> chunks n xs = take n xs # chunks n (drop n xs)"
  by (subst chunks.simps) simp

lemma concat_chunks: "0 < n \<Longrightarrow> concat (chunks n xs) = xs"
proof (induction n xs rule: chunks.induct)
  case (1 n xs)
  show ?case
  proof (cases "xs = []")
    case True
    then show ?thesis by simp
  next
    case False
    with 1 show ?thesis by (simp add: chunks_Cons)
  qed
qed

lemma length_chunk:
  "d \<in> set (chunks n xs) \<Longrightarrow> 0 < length d \<and> length d \<le> n"
proof (induction n xs rule: chunks.induct)
  case (1 n xs)
  show ?case
  proof (cases "n = 0 \<or> xs = []")
    case True
    with "1.prems" show ?thesis by (simp add: chunks.simps)
  next
    case False
    then have "chunks n xs = take n xs # chunks n (drop n xs)"
      by (simp add: chunks_Cons)
    with "1.prems" have "d = take n xs \<or> d \<in> set (chunks n (drop n xs))" by simp
    then show ?thesis
    proof
      assume "d = take n xs"
      with False show ?thesis by (cases xs) auto
    next
      assume "d \<in> set (chunks n (drop n xs))"
      with "1.IH" False show ?thesis by simp
    qed
  qed
qed

lemma length_inner_chunk:
  "d \<in> set (butlast (chunks n xs)) \<Longrightarrow> length d = n"
proof (induction n xs rule: chunks.induct)
  case (1 n xs)
  show ?case
  proof (cases "n = 0 \<or> xs = []")
    case True
    with "1.prems" show ?thesis by (simp add: chunks.simps)
  next
    case False
    then have c: "chunks n xs = take n xs # chunks n (drop n xs)"
      by (simp add: chunks_Cons)
    show ?thesis
    proof (cases "chunks n (drop n xs) = []")
      case True
      with c "1.prems" show ?thesis by simp
    next
      case rest: False
      then have "drop n xs \<noteq> []" by auto
      then have full: "length (take n xs) = n" by simp
      from c rest "1.prems" have "d = take n xs \<or> d \<in> set (butlast (chunks n (drop n xs)))"
        by simp
      with full "1.IH" False show ?thesis by auto
    qed
  qed
qed

lemma append_singleton: "(@) [c] = (#) c"
  by (rule ext) simp

lemma vosk_loop_feed:
  "vosk_loop K st frames acc =
     (acc @ concat (map (\<lambda>t. '' '' @ t) (fst (feed K st (chunks 4000 frames)))),
      snd (feed K st (chunks 4000 frames)))"
proof (induction K st frames acc rule: vosk_loop.induct)
  case (1 K st frames acc)
  show ?case
  proof (cases "frames = []")
    case True
    then show ?thesis by (simp add: vosk_loop.simps)
  next
    case False
    then have c: "chunks 4000 frames = take 4000 frames # chunks 4000 (drop 4000 frames)"
      by (simp add: chunks_Cons)
    from False have ne: "length (take 4000 frames) \<noteq> 0" by simp
    obtain b rec1 where a: "AcceptWaveform K st (take 4000 frames) = (b, rec1)"
      by (cases "AcceptWaveform K st (take 4000 frames)")
    show ?thesis
    proof (cases b)
      case True
      obtain t rec2 where r: "Result K rec1 = (t, rec2)"
        by (cases "Result K rec1")
      from "1.IH"(1) [of b rec1 t rec2] a True r c ne
      show ?thesis
        by (subst vosk_loop.simps) (simp add: split_beta append_singleton)
    next
      case False
      from "1.IH"(2) [of b rec1] a False c ne
      show ?thesis
        by (subst vosk_loop.simps) (simp add: append_singleton min_def)
    qed
  qed
qed


text \<open>
  C8, as the code has it. The file is read in chunks of 4000 frames (the last
  one may be shorter), each chunk goes through the recogniser once, and the
  returned sentence is: for each accepted result in order, one space and the
  text of the result, then one space and the text of the final result. A chunk
  that is not accepted adds nothing; an accepted result with an empty text
  adds its space.
\<close>

theorem vosk_text_accumulation:
  "vosk_recognition K st frames =
     concat (map (\<lambda>t. '' '' @ t) (fst (feed K st (chunks 4000 frames))))
     @ '' '' @ fst (FinalResult K (snd (feed K st (chunks 4000 frames))))
   \<and> concat (chunks 4000 frames) = frames
   \<and> (\<forall>d\<in>set (chunks 4000 frames). 0 < length d \<and> length d \<le> 4000)
   \<and> (\<forall>d\<in>set (butlast (chunks 4000 frames)). length d = 4000)"
  using length_chunk [of _ 4000 frames] length_inner_chunk [of _ 4000 frames]
  by (simp add: vosk_recognition_def vosk_loop_feed concat_chunks)

lemma quiet_chunks: "chunks 4000 (replicate 8000 (0::int)) = [replicate 4000 0, replicate 4000 0]"
  by (simp add: chunks_Cons)

theorem vosk_text_accumulation_witness:
  "vosk_recognition quiet_recognizer () (replicate 8000 0) = ''   hello''
   \<and> concat (chunks 4000 (replicate 8000 (0::int))) = replicate 8000 0
   \<and> replicate 4000 0 \<in> set (chunks 4000 (replicate 8000 (0::int)))
   \<and> length (replicate 4000 (0::int)) \<le> 4000
   \<and> replicate 4000 0 \<in> set (butlast (chunks 4000 (replicate 8000 (0::int))))
   \<and> length (replicate 4000 (0::int)) = 4000"
  using vosk_text_accumulation [of quiet_recognizer "()" "replicate 8000 0"]
  by (simp add: quiet_chunks quiet_recognizer_def)

theorem empty_result_adds_space:
  "fst (feed quiet_recognizer () (chunks 4000 (replicate 8000 0))) = [[], []]
   \<and> vosk_recognition quiet_recognizer () (replicate 8000 0) = ''   hello''
   \<and> vosk_recognition quiet_recognizer () [] = '' hello''"
  by (simp add: vosk_recognition_def vosk_loop_feed quiet_chunks quiet_recognizer_def)

subsection \<open>The evaluation after the recording\<close>

lemma evaluate_rows:
  assumes "evaluate E W V a f = (Inr report, trace)"
  shows "\<exists>s1 t1 s2 t2 n3 s3 t3 n4 s4 t4 ws wl vs vl.
           W ''base'' f (target_language a) = Inr (s1, t1)
         \<and> compute_error_rate E ''Test'' s1 = Inr ws
         \<and> W ''large'' f (target_language a) = Inr (s2, t2)
         \<and> compute_error_rate E ''Test'' s2 = Inr wl
         \<and> vosk_model a ''base'' = Inr n3 \<and> V n3 f = Inr (s3, t3)
         \<and> compute_error_rate E ''Test'' s3 = Inr vs
         \<and> vosk_model a ''large'' = Inr n4 \<and> V n4 f = Inr (s4, t4)
         \<and> compute_error_rate E ''Test'' s4 = Inr vl
         \<and> report = [(''vosk_small'', vs), (''vosk_large'', vl),
                      (''whisper_small'', ws), (''whisper_large'', wl)]"
    and "trace = [''whisper_small'', ''whisper_large'', ''vosk_small'', ''vosk_large'']"
  using assms
  by (auto simp: evaluate_def bind_t_def lift_def invoke_def
           split: sum.splits prod.splits)

lemma evaluate_latency:
  "evaluate E (\<lambda>m f l. with_latency g (W m f l)) (\<lambda>m f. with_latency g' (V m f)) a f
   = evaluate E W V a f"
  by (auto simp: evaluate_def bind_t_def lift_def invoke_def with_latency_def
           split: sum.splits prod.splits)

lemma reference_Test: "normalize_text ''Test'' \<noteq> []"
  by code_simp

lemma score_echo: "compute_error_rate E ''Test'' '' Test.'' = Inr (0, 0, 0, 1, 0)"
  unfolding compute_error_rate_defined [OF reference_Test] by code_simp

lemma score_near: "compute_error_rate E ''Test'' '' tests'' = Inr (1, 1, 1, 0, 1 / 4)"
  unfolding compute_error_rate_defined [OF reference_Test] by code_simp

lemma english_models:
  "vosk_model default_args ''base'' = Inr ''vosk-model-small-en-us-0.15''"
  "vosk_model default_args ''large'' = Inr ''vosk-model-en-us-0.42-gigaspeech''"
  by (simp_all add: vosk_model_def vosk_models_by_language_def default_args_def)

lemma echo_run:
  "evaluate E echo_whisper near_vosk default_args ''/home/user/recording.wav'' =
     (Inr [(''vosk_small'', 1, 1, 1, 0, 1 / 4), (''vosk_large'', 1, 1, 1, 0, 1 / 4),
           (''whisper_small'', 0, 0, 0, 1, 0), (''whisper_large'', 0, 0, 0, 1, 0)],
      [''whisper_small'', ''whisper_large'', ''vosk_small'', ''vosk_large''])"
  by (simp add: evaluate_def bind_t_def lift_def invoke_def echo_whisper_def near_vosk_def
        score_echo score_near english_models)

text \<open>
  C2, as the code has it. When the handler gets to the report, the report has
  one row for each of the four calls of a recognition method, and each row
  holds the measures of the sentence that its call returned. The rows are in
  the order in which \<^verbatim>\<open>model_data\<close> is written: vosk_small, vosk_large,
  whisper_small, whisper_large. The calls were made in the order whisper_small,
  whisper_large, vosk_small, vosk_large. Neither order nor any row depends on
  the elapsed times that the calls return.
\<close>

theorem report_rows_fixed_order:
  assumes "evaluate E W V a f = (Inr report, trace)"
  shows "map fst report = [''vosk_small'', ''vosk_large'', ''whisper_small'', ''whisper_large'']
       \<and> trace = [''whisper_small'', ''whisper_large'', ''vosk_small'', ''vosk_large'']
       \<and> length report = length trace \<and> set (map fst report) = set trace
       \<and> (\<exists>s1 t1 s2 t2 n3 s3 t3 n4 s4 t4 ws wl vs vl.
             W ''base'' f (target_language a) = Inr (s1, t1)
           \<and> compute_error_rate E ''Test'' s1 = Inr ws
           \<and> W ''large'' f (target_language a) = Inr (s2, t2)
           \<and> compute_error_rate E ''Test'' s2 = Inr wl
           \<and> vosk_model a ''base'' = Inr n3 \<and> V n3 f = Inr (s3, t3)
           \<and> compute_error_rate E ''Test'' s3 = Inr vs
           \<and> vosk_model a ''large'' = Inr n4 \<and> V n4 f = Inr (s4, t4)
           \<and> compute_error_rate E ''Test'' s4 = Inr vl
           \<and> report = [(''vosk_small'', vs), (''vosk_large'', vl),
                        (''whisper_small'', ws), (''whisper_large'', wl)])
       \<and> evaluate E (\<lambda>m f l. with_latency g (W m f l)) (\<lambda>m f. with_latency g' (V m f)) a f
           = (Inr report, trace)"
proof -
  from evaluate_rows(1) [OF assms]
  obtain ws wl vs vl where rows:
    "report = [(''vosk_small'', vs), (''vosk_large'', vl),
               (''whisper_small'', ws), (''whisper_large'', wl)]"
    by blast
  have calls: "trace = [''whisper_small'', ''whisper_large'', ''vosk_small'', ''vosk_large'']"
    by (rule evaluate_rows(2) [OF assms])
  have labels: "map fst report =
      [''vosk_small'', ''vosk_large'', ''whisper_small'', ''whisper_large'']"
    by (simp add: rows)
  have same: "set (map fst report) = set trace"
    unfolding labels calls by (simp add: insert_commute)
  have len: "length report = length trace"
    by (simp add: rows calls)
  have lat: "evaluate E (\<lambda>m f l. with_latency g (W m f l)) (\<lambda>m f. with_latency g' (V m f)) a f
      = (Inr report, trace)"
    by (simp only: evaluate_latency assms)
  show ?thesis
    using labels calls len same evaluate_rows(1) [OF assms] lat by blast
qed

theorem report_rows_fixed_order_witness:
  "evaluate raising echo_whisper near_vosk default_args ''/home/user/recording.wav'' =
     (Inr [(''vosk_small'', 1, 1, 1, 0, 1 / 4), (''vosk_large'', 1, 1, 1, 0, 1 / 4),
           (''whisper_small'', 0, 0, 0, 1, 0), (''whisper_large'', 0, 0, 0, 1, 0)],
      [''whisper_small'', ''whisper_large'', ''vosk_small'', ''vosk_large''])
   \<and> evaluate raising (\<lambda>m f l. with_latency Suc (echo_whisper m f l))
                (\<lambda>m f. with_latency Suc (near_vosk m f))
                default_args ''/home/user/recording.wav'' =
     (Inr [(''vosk_small'', 1, 1, 1, 0, 1 / 4), (''vosk_large'', 1, 1, 1, 0, 1 / 4),
           (''whisper_small'', 0, 0, 0, 1, 0), (''whisper_large'', 0, 0, 0, 1, 0)],
      [''whisper_small'', ''whisper_large'', ''vosk_small'', ''vosk_large''])"
  using report_rows_fixed_order [OF echo_run [of raising], of Suc Suc] echo_run [of raising]
  by simp

theorem report_order_differs_from_call_order:
  "map_sum id (map fst)
     (fst (evaluate raising echo_whisper near_vosk default_args ''/home/user/recording.wav''))
     = Inr [''vosk_small'', ''vosk_large'', ''whisper_small'', ''whisper_large'']
   \<and> snd (evaluate raising echo_whisper near_vosk default_args ''/home/user/recording.wav'')
     = [''whisper_small'', ''whisper_large'', ''vosk_small'', ''vosk_large'']"
  using echo_run [of raising] by simp

end
